theory Spec2Isabelle
  imports Complex_Main
begin

section \<open>Expense sharing: data model\<close>

text \<open>
  A shallow embedding of \<^verbatim>\<open>src/expense_app.cpp\<close>. The classes of the program become
  records, the enumeration a datatype; every \<^verbatim>\<open>return false\<close> of a member function
  becomes an error value named after the message it prints, and the object a member function
  mutates is passed in and returned.

  Modelling decisions:
  \<^item> A \<^verbatim>\<open>double\<close> the program stores (an amount, a share, a balance entry) is
    modelled by the \<^typ>\<open>real\<close> number it denotes. Where the rounding of the machine
    decides what the program does, in the two tolerance tests of \<^verbatim>\<open>addExpense\<close>, the
    arithmetic is that of IEEE 754 binary64 with rounding to nearest, ties to even (section
    \<open>binary64\<close> below): the sum of the weights is accumulated from the left with one
    rounding per addition, the difference to the target is rounded once more, and the
    result is compared with the double the literal \<^verbatim>\<open>0.01\<close> denotes. This is the
    arithmetic of the program as its header compiles it (\<^verbatim>\<open>g++ -std=c++17\<close>, no
    fast-math) for a machine that computes doubles in double precision. The quotient of
    the EQUAL split, the product of the PERCENTAGE split and the sums of the balance are
    stored values, not decisions; they are modelled exactly, without their final rounding.
  \<^item> \<^verbatim>\<open>int\<close> identities are modelled by \<^typ>\<open>int\<close>; the counters only ever
    grow by one, and overflow of a 32-bit counter is not modelled.
  \<^item> \<^verbatim>\<open>currentUser\<close> is a pointer into the vector \<^verbatim>\<open>users\<close>; the program
    never changes a stored user, so the model keeps a copy of the record it points to.
  \<^item> \<^verbatim>\<open>saveData\<close> and the console output are not modelled; the creation time an
    expense is stamped with is a parameter.
\<close>

datatype SplitMethod = EQUAL | EXACT | PERCENTAGE

record User =
  u_id :: int
  u_name :: string
  u_email :: string
  u_phone :: string
  u_password :: string

record ExpenseParticipant =
  userId :: int
  share :: real

record Expense =
  e_id :: int
  description :: string
  amount :: real
  splitMethod :: SplitMethod
  createdBy :: int
  createdAt :: string
  participants :: "ExpenseParticipant list"

record ExpenseManager =
  users :: "User list"
  expenses :: "Expense list"
  currentUser :: "User option"
  nextUserId :: int
  nextExpenseId :: int

section \<open>binary64\<close>

text \<open>
  The value of a \<^verbatim>\<open>double\<close> expression: a finite number or an infinity. The inputs
  of \<^verbatim>\<open>addExpense\<close> are finite, and a sum or difference with a finite operand is
  never a NaN, so no NaN is needed; the sign of a zero is not kept, since no comparison
  and no sum of the program depends on it.
\<close>

datatype double = Finite real | PlusInfinity | MinusInfinity

text \<open>\<open>\<lfloor>log\<^sub>2 n\<rfloor>\<close> of a positive natural number, by halving.\<close>

fun log2floor :: "nat \<Rightarrow> nat" where
  "log2floor n = (if n < 2 then 0 else Suc (log2floor (n div 2)))"

declare log2floor.simps [simp del]

text \<open>
  \<open>\<lfloor>log\<^sub>2 a\<rfloor>\<close> of a positive real number, the exponent of the binade \<open>a\<close> lies in
  (lemma \<open>ilog2_bounds\<close> below).
\<close>

definition ilog2 :: "real \<Rightarrow> int" where
  "ilog2 a =
     (if 1 \<le> a then int (log2floor (nat \<lfloor>a\<rfloor>))
      else
        let t = int (log2floor (nat \<lfloor>1 / a\<rfloor>))
        in if a * 2 powi t = 1 then - t else - t - 1)"

text \<open>The nearest integer to a non-negative real number, the even one of two at a tie.\<close>

definition roundEven :: "real \<Rightarrow> int" where
  "roundEven y =
     (let f = \<lfloor>y\<rfloor>; d = y - of_int f
      in if d < 1 / 2 then f else if 1 / 2 < d then f + 1 else if even f then f else f + 1)"

text \<open>
  Rounding to binary64: 53 significant bits, exponents from \<open>-1022\<close> (below it the
  spacing of the subnormal numbers, \<open>2\<^sup>-\<^sup>1\<^sup>0\<^sup>7\<^sup>4\<close>) to \<open>1023\<close>; a magnitude that rounds
  to \<open>2\<^sup>1\<^sup>0\<^sup>2\<^sup>4\<close> or more is an infinity.
\<close>

definition round64 :: "real \<Rightarrow> double" where
  "round64 x =
     (if x = 0 then Finite 0
      else
        let a = \<bar>x\<bar>;
            e = max (ilog2 a) (- 1022);
            u = 2 powi (e - 52);
            r = of_int (roundEven (a / u)) * u
        in if 2 powi 1024 \<le> r then (if 0 < x then PlusInfinity else MinusInfinity)
           else Finite (if 0 < x then r else - r))"

text \<open>
  \<^verbatim>\<open>x + y\<close> and \<^verbatim>\<open>x - y\<close> for a finite \<open>y\<close>, \<^verbatim>\<open>abs(x)\<close>, and \<^verbatim>\<open>x > c\<close> for a
  finite \<open>c\<close>.
\<close>

primrec dadd :: "double \<Rightarrow> real \<Rightarrow> double" where
  "dadd (Finite x) y = round64 (x + y)"
| "dadd PlusInfinity y = PlusInfinity"
| "dadd MinusInfinity y = MinusInfinity"

primrec dsub :: "double \<Rightarrow> real \<Rightarrow> double" where
  "dsub (Finite x) y = round64 (x - y)"
| "dsub PlusInfinity y = PlusInfinity"
| "dsub MinusInfinity y = MinusInfinity"

primrec dabs :: "double \<Rightarrow> double" where
  "dabs (Finite x) = Finite \<bar>x\<bar>"
| "dabs PlusInfinity = PlusInfinity"
| "dabs MinusInfinity = PlusInfinity"

primrec dgreater :: "double \<Rightarrow> real \<Rightarrow> bool" where
  "dgreater (Finite x) c \<longleftrightarrow> x > c"
| "dgreater PlusInfinity c \<longleftrightarrow> True"
| "dgreater MinusInfinity c \<longleftrightarrow> False"

text \<open>
  The double the literal \<^verbatim>\<open>0.01\<close> denotes, \<^verbatim>\<open>0x1.47ae147ae147bp-7\<close>, a little
  above one hundredth (lemma \<open>tolerance_rounds_a_hundredth\<close> below).
\<close>

definition tolerance :: real where
  "tolerance = 5764607523034235 / 576460752303423488"

text \<open>
  One error per failing exit of \<^verbatim>\<open>registerUser\<close>, \<^verbatim>\<open>login\<close> and
  \<^verbatim>\<open>addExpense\<close>, carrying what the message reports. \<open>DivisionByZero\<close> is not an exit
  of the program: it marks the one place where exact division and the machine's differ
  (a quotient by a participant count of zero, an infinity in IEEE 754), so that reaching it
  is visible in the model.
\<close>

datatype error =
    NotLoggedIn
  | InvalidEmail
  | InvalidPhone
  | DuplicateEmail
  | InvalidCredentials
  | InvalidAmount
  | UnknownParticipant int
  | ShareCountMismatch
  | ShareSumMismatch double real
  | PercentageSumMismatch double
  | DivisionByZero

section \<open>Utils\<close>

text \<open>\<^verbatim>\<open>email.find('@') != npos && email.find('.') != npos\<close>\<close>

definition isValidEmail :: "string \<Rightarrow> bool" where
  "isValidEmail em \<longleftrightarrow> CHR ''@'' \<in> set em \<and> CHR ''.'' \<in> set em"

text \<open>\<^verbatim>\<open>isdigit\<close> in the C locale: the ten characters \<open>0\<close> to \<open>9\<close>.\<close>

definition isdigit :: "char \<Rightarrow> bool" where
  "isdigit c \<longleftrightarrow> c \<in> set ''0123456789''"

text \<open>The loop of \<^verbatim>\<open>isValidPhone\<close>: the first character that is no digit returns false.\<close>

primrec allDigits :: "string \<Rightarrow> bool" where
  "allDigits [] = True"
| "allDigits (c # cs) = (if \<not> isdigit c then False else allDigits cs)"

definition isValidPhone :: "string \<Rightarrow> bool" where
  "isValidPhone ph = (if ph = [] \<or> length ph < 10 then False else allDigits ph)"

section \<open>ExpenseManager: users\<close>

text \<open>The constructor with no data files to load: both counters start at 1.\<close>

definition newManager :: ExpenseManager where
  "newManager = \<lparr>users = [], expenses = [], currentUser = None, nextUserId = 1, nextExpenseId = 1\<rparr>"

text \<open>The scan of \<^verbatim>\<open>registerUser\<close> for a user with the same email (\<^verbatim>\<open>==\<close> on strings).\<close>

primrec emailRegistered :: "User list \<Rightarrow> string \<Rightarrow> bool" where
  "emailRegistered [] em = False"
| "emailRegistered (u # us) em = (if u_email u = em then True else emailRegistered us em)"

definition registerUser ::
  "ExpenseManager \<Rightarrow> string \<Rightarrow> string \<Rightarrow> string \<Rightarrow> string \<Rightarrow> (error + unit) \<times> ExpenseManager" where
  "registerUser m nm em ph pw =
     (if \<not> isValidEmail em then (Inl InvalidEmail, m)
      else if \<not> isValidPhone ph then (Inl InvalidPhone, m)
      else if emailRegistered (users m) em then (Inl DuplicateEmail, m)
      else
        let newUser = \<lparr>u_id = nextUserId m, u_name = nm, u_email = em, u_phone = ph, u_password = pw\<rparr>
        in (Inr (), m\<lparr>users := users m @ [newUser], nextUserId := nextUserId m + 1\<rparr>))"

text \<open>The scan of \<^verbatim>\<open>login\<close>: the first user whose email and password both match.\<close>

primrec findLogin :: "User list \<Rightarrow> string \<Rightarrow> string \<Rightarrow> User option" where
  "findLogin [] em pw = None"
| "findLogin (u # us) em pw =
     (if u_email u = em \<and> u_password u = pw then Some u else findLogin us em pw)"

definition login :: "ExpenseManager \<Rightarrow> string \<Rightarrow> string \<Rightarrow> (error + unit) \<times> ExpenseManager" where
  "login m em pw =
     (case findLogin (users m) em pw of
        Some u \<Rightarrow> (Inr (), m\<lparr>currentUser := Some u\<rparr>)
      | None \<Rightarrow> (Inl InvalidCredentials, m))"

definition logout :: "ExpenseManager \<Rightarrow> ExpenseManager" where
  "logout m = (if currentUser m \<noteq> None then m\<lparr>currentUser := None\<rparr> else m)"

section \<open>ExpenseManager: addExpense\<close>

text \<open>
  Lines 441 to 451: the creator's id is pushed to the back of the participant ids unless
  the scan finds it there.
\<close>

definition includeCreator :: "int \<Rightarrow> int list \<Rightarrow> int list" where
  "includeCreator creator pids = (if creator \<in> set pids then pids else pids @ [creator])"

text \<open>Lines 453 to 466: the first participant id that no user has, if any.\<close>

primrec userExists :: "User list \<Rightarrow> int \<Rightarrow> bool" where
  "userExists [] i = False"
| "userExists (u # us) i = (if u_id u = i then True else userExists us i)"

primrec firstUnknown :: "User list \<Rightarrow> int list \<Rightarrow> int option" where
  "firstUnknown us [] = None"
| "firstUnknown us (i # is) = (if \<not> userExists us i then Some i else firstUnknown us is)"

text \<open>
  \<^verbatim>\<open>double total = 0; for (double share : shares) total += share;\<close> with one rounding
  for each \<^verbatim>\<open>+=\<close>.
\<close>

definition sumShares :: "real list \<Rightarrow> double" where
  "sumShares ws = foldl dadd (Finite 0) ws"

text \<open>
  Lines 472 to 520, the three branches that fill the participant list of the new expense.
  The tests \<^verbatim>\<open>abs(total - amount) > 0.01\<close> and
  \<^verbatim>\<open>abs(totalPercentage - 100.0) > 0.01\<close> are evaluated in binary64. The loops over
  \<^verbatim>\<open>participantIds[i]\<close> and \<^verbatim>\<open>shares[i]\<close> run only after the two lengths were
  found equal, so they are a \<open>map2\<close> over both lists.
\<close>

definition calculateShares ::
  "real \<Rightarrow> SplitMethod \<Rightarrow> int list \<Rightarrow> real list \<Rightarrow> error + ExpenseParticipant list" where
  "calculateShares amt method pids ws =
     (case method of
        EQUAL \<Rightarrow>
          if length pids = 0 then Inl DivisionByZero
          else
            let shareAmount = amt / real (length pids)
            in Inr (map (\<lambda>uid. \<lparr>userId = uid, share = shareAmount\<rparr>) pids)
      | EXACT \<Rightarrow>
          if length ws \<noteq> length pids then Inl ShareCountMismatch
          else
            let total = sumShares ws
            in if dgreater (dabs (dsub total amt)) tolerance then Inl (ShareSumMismatch total amt)
               else Inr (map2 (\<lambda>uid w. \<lparr>userId = uid, share = w\<rparr>) pids ws)
      | PERCENTAGE \<Rightarrow>
          if length ws \<noteq> length pids then Inl ShareCountMismatch
          else
            let totalPercentage = sumShares ws
            in if dgreater (dabs (dsub totalPercentage 100.0)) tolerance
               then Inl (PercentageSumMismatch totalPercentage)
               else Inr (map2 (\<lambda>uid w. \<lparr>userId = uid, share = amt * (w / 100.0)\<rparr>) pids ws))"

text \<open>
  \<^verbatim>\<open>addExpense\<close>. The expense is constructed, and \<^verbatim>\<open>nextExpenseId++\<close> evaluated, at
  line 469: after the login, amount and participant checks, before the checks of the split.
  \<open>now\<close> is the time the constructor reads from the clock.
\<close>

definition addExpense ::
  "ExpenseManager \<Rightarrow> string \<Rightarrow> string \<Rightarrow> real \<Rightarrow> SplitMethod \<Rightarrow> int list \<Rightarrow> real list
     \<Rightarrow> (error + unit) \<times> ExpenseManager" where
  "addExpense m now desc amt method participantIds ws =
     (case currentUser m of
        None \<Rightarrow> (Inl NotLoggedIn, m)
      | Some cu \<Rightarrow>
          if amt \<le> 0 then (Inl InvalidAmount, m)
          else
            let pids = includeCreator (u_id cu) participantIds
            in case firstUnknown (users m) pids of
                 Some i \<Rightarrow> (Inl (UnknownParticipant i), m)
               | None \<Rightarrow>
                   let newExpense = \<lparr>e_id = nextExpenseId m, description = desc, amount = amt,
                                     splitMethod = method, createdBy = u_id cu, createdAt = now,
                                     participants = []\<rparr>;
                       m1 = m\<lparr>nextExpenseId := nextExpenseId m + 1\<rparr>
                   in case calculateShares amt method pids ws of
                        Inl err \<Rightarrow> (Inl err, m1)
                      | Inr ps \<Rightarrow>
                          (Inr (), m1\<lparr>expenses := expenses m1 @ [newExpense\<lparr>participants := ps\<rparr>]\<rparr>))"

section \<open>ExpenseManager: balance\<close>

text \<open>
  \<^verbatim>\<open>map<int, double> balance\<close>; \<^verbatim>\<open>balance[k]\<close> inserts the value \<open>0.0\<close> for a key
  that is absent before \<^verbatim>\<open>+=\<close> or \<^verbatim>\<open>-=\<close> reads it.
\<close>

type_synonym balance = "int \<rightharpoonup> real"

definition entry :: "balance \<Rightarrow> int \<Rightarrow> real" where
  "entry b k = (case b k of None \<Rightarrow> 0 | Some v \<Rightarrow> v)"

definition plusAssign :: "balance \<Rightarrow> int \<Rightarrow> real \<Rightarrow> balance" where
  "plusAssign b k v = b(k \<mapsto> entry b k + v)"

definition minusAssign :: "balance \<Rightarrow> int \<Rightarrow> real \<Rightarrow> balance" where
  "minusAssign b k v = b(k \<mapsto> entry b k - v)"

text \<open>Lines 593 to 605, the body of the inner loop, for the user \<open>me\<close> that is logged in.\<close>

definition balanceStep :: "int \<Rightarrow> int \<Rightarrow> balance \<Rightarrow> ExpenseParticipant \<Rightarrow> balance" where
  "balanceStep me payer b p =
     (if payer = me \<and> userId p \<noteq> me then plusAssign b (userId p) (share p)
      else if userId p = me \<and> payer \<noteq> me then minusAssign b payer (share p)
      else b)"

text \<open>Lines 590 to 606: one expense, then all of them, from the left.\<close>

definition balanceExpense :: "int \<Rightarrow> balance \<Rightarrow> Expense \<Rightarrow> balance" where
  "balanceExpense me b e = foldl (balanceStep me (createdBy e)) b (participants e)"

definition computeBalance :: "Expense list \<Rightarrow> int \<Rightarrow> balance" where
  "computeBalance ledger me = foldl (balanceExpense me) Map.empty ledger"

text \<open>\<^verbatim>\<open>displayBalance\<close> up to line 606: the map it goes on to print.\<close>

definition displayBalance :: "ExpenseManager \<Rightarrow> error + balance" where
  "displayBalance m =
     (case currentUser m of
        None \<Rightarrow> Inl NotLoggedIn
      | Some cu \<Rightarrow> Inr (computeBalance (expenses m) (u_id cu)))"

section \<open>The balance as the specification words it\<close>

text \<open>
  What one participant share of an expense paid by \<open>payer\<close> adds to the entry of the
  counterparty \<open>c\<close> in the balance of the focal user \<open>me\<close>: the share when the focal user
  paid and \<open>c\<close> is the participant, minus the share when \<open>c\<close> paid and the focal user is the
  participant, nothing otherwise. \<open>involves\<close> says that the share touches the entry at all.
\<close>

definition contribution :: "int \<Rightarrow> int \<Rightarrow> ExpenseParticipant \<Rightarrow> int \<Rightarrow> real" where
  "contribution me payer p c =
     (if payer = me \<and> userId p \<noteq> me \<and> userId p = c then share p
      else if userId p = me \<and> payer \<noteq> me \<and> payer = c then - share p
      else 0)"

definition involves :: "int \<Rightarrow> int \<Rightarrow> ExpenseParticipant \<Rightarrow> int \<Rightarrow> bool" where
  "involves me payer p c \<longleftrightarrow>
     (payer = me \<and> userId p \<noteq> me \<and> userId p = c) \<or> (userId p = me \<and> payer \<noteq> me \<and> payer = c)"

section \<open>A session of the program\<close>

text \<open>
  Three registrations on a fresh manager and the login of the first user. From there, the
  expense of the specification's scenario (user 1 pays 90, split equally among users 1, 2
  and 3), and, separately, an exact split that the menu of the program can produce: one
  participant and one amount are entered, the creator is added to the participants, and the
  two counts differ.
\<close>

definition threeUsers :: ExpenseManager where
  "threeUsers =
     snd (registerUser (snd (registerUser (snd (registerUser newManager
       ''Ann'' ''ann@x.org'' ''5550000001'' ''pa''))
       ''Bob'' ''bob@x.org'' ''5550000002'' ''pb''))
       ''Cy'' ''cy@x.org'' ''5550000003'' ''pc'')"

definition annLoggedIn :: ExpenseManager where
  "annLoggedIn = snd (login threeUsers ''ann@x.org'' ''pa'')"

definition afterDinner :: ExpenseManager where
  "afterDinner =
     snd (addExpense annLoggedIn ''2024-01-01 12:00:00'' ''dinner'' 90 EQUAL [1, 2, 3] [])"

definition dinnerLedger :: "Expense list" where
  "dinnerLedger = expenses afterDinner"

text \<open>
  The doubles the decimal inputs \<open>0.33\<close>, \<open>0.04\<close> and \<open>99.97\<close> are read as
  (\<^verbatim>\<open>0x1.51eb851eb851fp-2\<close>, \<^verbatim>\<open>0x1.47ae147ae147bp-5\<close> and
  \<^verbatim>\<open>0x1.8fe147ae147aep+6\<close>).
\<close>

definition double_0_33 :: real where
  "double_0_33 = 5944751508129055 / 18014398509481984"



definition afterFailedTaxi :: ExpenseManager where
  "afterFailedTaxi =
     snd (addExpense annLoggedIn ''2024-01-01 09:00:00'' ''taxi'' 100 EXACT [2] [100])"

section \<open>binary64: the exponent and the rounding\<close>

text \<open>The exponent \<open>ilog2\<close> computes is the one of the binade its argument lies in.\<close>

lemma log2floor_bounds: "0 < n \<Longrightarrow> 2 ^ log2floor n \<le> n \<and> n < 2 ^ Suc (log2floor n)"
proof (induction n rule: log2floor.induct)
  case (1 n)
  show ?case
  proof (cases "n < 2")
    case True
    with "1.prems" have "n = 1" by simp
    then show ?thesis by (simp add: log2floor.simps)
  next
    case False
    then have pos: "0 < n div 2" by simp
    from "1.IH" [OF False pos]
    have lo: "2 ^ log2floor (n div 2) \<le> n div 2" and hi: "n div 2 < 2 ^ Suc (log2floor (n div 2))"
      by simp_all
    from False have eq: "log2floor n = Suc (log2floor (n div 2))"
      by (subst log2floor.simps) simp
    from lo have "2 * 2 ^ log2floor (n div 2) \<le> n" by simp
    moreover from hi have "n < 2 * 2 ^ Suc (log2floor (n div 2))" by simp
    ultimately show ?thesis by (simp add: eq)
  qed
qed

lemma nat_floor_bounds:
  fixes y :: real
  assumes "1 \<le> y"
  shows "0 < nat \<lfloor>y\<rfloor>" and "real (nat \<lfloor>y\<rfloor>) \<le> y" and "y < real (nat \<lfloor>y\<rfloor>) + 1"
proof -
  from assms have f: "1 \<le> \<lfloor>y\<rfloor>" by simp
  then show "0 < nat \<lfloor>y\<rfloor>" by simp
  from f have eq: "real (nat \<lfloor>y\<rfloor>) = of_int \<lfloor>y\<rfloor>" by simp
  show "real (nat \<lfloor>y\<rfloor>) \<le> y" unfolding eq by (rule of_int_floor_le)
  show "y < real (nat \<lfloor>y\<rfloor>) + 1" unfolding eq by linarith
qed

lemma log2floor_real_bounds:
  fixes y :: real
  assumes "1 \<le> y"
  shows "2 ^ log2floor (nat \<lfloor>y\<rfloor>) \<le> y" and "y < 2 ^ Suc (log2floor (nat \<lfloor>y\<rfloor>))"
proof -
  let ?n = "nat \<lfloor>y\<rfloor>"
  note n = nat_floor_bounds [OF assms]
  from log2floor_bounds [OF n(1)]
  have lo: "2 ^ log2floor ?n \<le> ?n" and hi: "Suc ?n \<le> 2 ^ Suc (log2floor ?n)" by simp_all
  from lo have "real (2 ^ log2floor ?n) \<le> real ?n" by (simp only: of_nat_le_iff)
  then have "(2::real) ^ log2floor ?n \<le> real ?n" by simp
  with n(2) show "2 ^ log2floor ?n \<le> y" by linarith
  from hi have "real (Suc ?n) \<le> real (2 ^ Suc (log2floor ?n))" by (simp only: of_nat_le_iff)
  then have "real ?n + 1 \<le> (2::real) ^ Suc (log2floor ?n)" by simp
  with n(3) show "y < 2 ^ Suc (log2floor ?n)" by linarith
qed

lemma ilog2_bounds:
  assumes "0 < a"
  shows "2 powi ilog2 a \<le> a \<and> a < 2 powi (ilog2 a + 1)"
proof (cases "1 \<le> a")
  case True
  let ?n = "nat \<lfloor>a\<rfloor>"
  note b = log2floor_real_bounds [OF True]
  have "ilog2 a = int (log2floor ?n)" using True by (simp add: ilog2_def)
  moreover have "int (log2floor ?n) + 1 = int (Suc (log2floor ?n))" by simp
  ultimately show ?thesis using b by (simp only: power_int_of_nat) 
next
  case False
  define y where "y = 1 / a"
  define t where "t = log2floor (nat \<lfloor>y\<rfloor>)"
  from False assms have "1 < y" by (simp add: y_def)
  then have y1: "1 \<le> y" by simp
  from log2floor_real_bounds [OF y1]
  have A: "2 ^ t \<le> y" and B: "y < 2 ^ Suc t" by (simp_all only: t_def)
  from A assms have A': "a * 2 ^ t \<le> 1"
    by (simp add: y_def field_simps)
  from B assms have B': "1 < a * 2 ^ Suc t"
    by (simp add: y_def field_simps)
  have il: "ilog2 a = (if a * 2 ^ t = 1 then - int t else - int t - 1)"
    using False by (simp add: ilog2_def Let_def t_def y_def)
  show ?thesis
  proof (cases "a * 2 ^ t = 1")
    case True
    then have a: "a = 1 / 2 ^ t" by (simp add: field_simps)
    have "ilog2 a = - int t" using il True by simp
    moreover have p: "2 powi (- int t) = (1::real) / 2 ^ t"
      by (simp add: power_int_minus_divide)
    moreover have "(1::real) / 2 ^ t < 2 powi (- int t + 1)"
    proof -
      have "2 powi (- int t + 1) = 2 powi (- int t) * (2::real)"
        by (rule power_int_add_1) simp
      moreover have "0 < (1::real) / 2 ^ t" by simp
      ultimately show ?thesis unfolding p by linarith
    qed
    ultimately show ?thesis using a by simp
  next
    case neq: False
    have il': "ilog2 a = - int t - 1" using il neq by simp
    have "2 powi (- int (Suc t)) = (1::real) / 2 ^ Suc t"
      by (simp only: power_int_minus_divide power_int_of_nat)
    moreover have "- int (Suc t) = - int t - 1" by simp
    ultimately have p1: "2 powi (- int t - 1) = (1::real) / 2 ^ Suc t"
      by (simp only:)
    have p2: "2 powi (- int t - 1 + 1) = (1::real) / 2 ^ t"
      by (simp add: power_int_minus_divide)
    from B' have "1 / 2 ^ Suc t \<le> a" by (simp add: field_simps)
    moreover from A' neq have "a * 2 ^ t < 1" by simp
    then have "a < 1 / 2 ^ t" by (simp add: field_simps)
    ultimately show ?thesis unfolding il' p1 p2 by simp
  qed
qed

lemma powi2_less_imp_less: "(2::real) powi k < 2 powi m \<Longrightarrow> k < m"
proof (rule ccontr)
  assume less: "(2::real) powi k < 2 powi m" and "\<not> k < m"
  then have "m \<le> k" by simp
  then have "(2::real) powi m \<le> 2 powi k" by (rule power_int_increasing) simp
  with less show False by simp
qed

lemma ilog2_eqI:
  assumes "2 powi k \<le> a" and "a < 2 powi (k + 1)"
  shows "ilog2 a = k"
proof -
  have "0 < (2::real) powi k" by simp
  with assms(1) have pos: "0 < a" by linarith
  from ilog2_bounds [OF pos]
  have lo: "2 powi ilog2 a \<le> a" and hi: "a < 2 powi (ilog2 a + 1)" by simp_all
  from assms(1) hi have "(2::real) powi k < 2 powi (ilog2 a + 1)" by linarith
  then have "k < ilog2 a + 1" by (rule powi2_less_imp_less)
  moreover from lo assms(2) have "(2::real) powi ilog2 a < 2 powi (k + 1)" by linarith
  then have "ilog2 a < k + 1" by (rule powi2_less_imp_less)
  ultimately show ?thesis by simp
qed


lemma round64_eqI:
  assumes "2 powi k \<le> \<bar>x\<bar>" and "\<bar>x\<bar> < 2 powi (k + 1)" and "- 1022 \<le> k"
  shows "round64 x =
     (let u = 2 powi (k - 52); r = of_int (roundEven (\<bar>x\<bar> / u)) * u
      in if 2 powi 1024 \<le> r then (if 0 < x then PlusInfinity else MinusInfinity)
         else Finite (if 0 < x then r else - r))"
proof -
  have pos: "0 < (2::real) powi k" by simp
  have "x \<noteq> 0"
  proof
    assume "x = 0"
    with assms(1) have "(2::real) powi k \<le> 0" by simp
    with pos show False by linarith
  qed
  moreover have "ilog2 \<bar>x\<bar> = k" using assms(1,2) by (rule ilog2_eqI)
  with assms(3) have "max (ilog2 \<bar>x\<bar>) (- 1022) = k" by simp
  ultimately show ?thesis unfolding round64_def Let_def by (simp only: if_False)
qed

lemma roundEven_of_int: "roundEven (of_int m) = m"
  by (simp add: roundEven_def)

lemma round64_of_int:
  assumes "\<bar>n\<bar> < 2 ^ 53"
  shows "round64 (of_int n) = Finite (of_int n)"
proof (cases "n = 0")
  case True
  then show ?thesis by (simp add: round64_def)
next
  case False
  define a :: real where "a = \<bar>of_int n\<bar>"
  define k where "k = ilog2 a"
  from False have a1: "1 \<le> a" by (simp add: a_def)
  then have "0 < a" by simp
  from ilog2_bounds [OF this] have lo: "2 powi k \<le> a" and hi: "a < 2 powi (k + 1)"
    by (simp_all add: k_def)
  from assms have "a < 2 ^ 53"
    unfolding a_def by (metis of_int_abs of_int_less_numeral_power_cancel_iff)
  then have a53: "a < 2 powi 53" by simp
  with lo have "(2::real) powi k < 2 powi 53" by linarith
  then have k53: "k < 53" by (rule powi2_less_imp_less)
  from a1 hi have "(2::real) powi 0 < 2 powi (k + 1)" by simp
  then have "0 < k + 1" by (rule powi2_less_imp_less)
  then have k0: "0 \<le> k" by simp
  define j where "j = nat (52 - k)"
  have u: "(2::real) powi (k - 52) = 1 / 2 ^ j"
  proof -
    have "k - 52 = - int j" using k53 by (simp add: j_def)
    then show ?thesis by (simp only: power_int_minus_divide power_int_of_nat)
  qed
  have quot: "a / (2 powi (k - 52)) = of_int (\<bar>n\<bar> * 2 ^ j)"
    unfolding u a_def by simp
  have r: "of_int (roundEven (a / (2 powi (k - 52)))) * 2 powi (k - 52) = a"
    unfolding quot roundEven_of_int unfolding u a_def by simp
  have small: "\<not> 2 powi 1024 \<le> a"
  proof -
    have "(2::real) powi 53 \<le> 2 powi 1024" by (rule power_int_increasing) simp_all
    with a53 show ?thesis by linarith
  qed
  have "round64 (of_int n) =
     (let u = 2 powi (k - 52); r = of_int (roundEven (a / u)) * u
      in if 2 powi 1024 \<le> r then (if 0 < (of_int n :: real) then PlusInfinity else MinusInfinity)
         else Finite (if 0 < (of_int n :: real) then r else - r))"
    using lo hi k0 unfolding a_def by (intro round64_eqI) simp_all
  then have "round64 (of_int n) = Finite (if 0 < (of_int n :: real) then a else - a)"
    unfolding Let_def r using small by (simp only: if_False)
  also have "(if 0 < (of_int n :: real) then a else - a) = of_int n"
    by (simp add: a_def)
  finally show ?thesis .
qed

text \<open>Integers below \<open>2\<^sup>5\<^sup>3\<close> are doubles, so rounding leaves them as they are.\<close>

lemma round64_numeral:
  "(numeral w :: int) < 2 ^ 53 \<Longrightarrow> round64 (numeral w) = Finite (numeral w)"
  using round64_of_int [of "numeral w"] by simp

lemma round64_neg_numeral:
  "(numeral w :: int) < 2 ^ 53 \<Longrightarrow> round64 (- numeral w) = Finite (- numeral w)"
  using round64_of_int [of "- numeral w"] by simp

lemma round64_zero: "round64 0 = Finite 0"
  by (simp add: round64_def)

lemma round64_subnormal_eqI:
  assumes "x \<noteq> 0" and "\<bar>x\<bar> < 2 powi (- 1022)"
  shows "round64 x =
     (let u = 2 powi (- 1074); r = of_int (roundEven (\<bar>x\<bar> / u)) * u
      in if 2 powi 1024 \<le> r then (if 0 < x then PlusInfinity else MinusInfinity)
         else Finite (if 0 < x then r else - r))"
proof -
  from assms(1) have "0 < \<bar>x\<bar>" by simp
  from ilog2_bounds [OF this] assms(2) have "(2::real) powi ilog2 \<bar>x\<bar> < 2 powi (- 1022)"
    by linarith
  then have "ilog2 \<bar>x\<bar> < - 1022" by (rule powi2_less_imp_less)
  then have "max (ilog2 \<bar>x\<bar>) (- 1022) - 52 = - 1074" by simp
  with assms(1) show ?thesis unfolding round64_def Let_def by (simp only: if_False)
qed

text \<open>
  The ends of the range: the largest double is kept, half a unit above it is an infinity;
  half the smallest subnormal number is rounded to zero, three halves of it to twice it.
\<close>

lemma round64_largest: "round64 (2 ^ 1024 - 2 ^ 971) = Finite (2 ^ 1024 - 2 ^ 971)"
  by (subst round64_eqI [where k = 1023]) (simp_all add: roundEven_def)

lemma round64_overflow: "round64 (2 ^ 1024 - 2 ^ 970) = PlusInfinity"
  by (subst round64_eqI [where k = 1023]) (simp_all add: roundEven_def)

lemma round64_underflow: "round64 (1 / 2 ^ 1075) = Finite 0"
  by (subst round64_subnormal_eqI) (simp_all add: roundEven_def)

lemma round64_subnormal_tie: "round64 (3 / 2 ^ 1075) = Finite (2 / 2 ^ 1074)"
  by (subst round64_subnormal_eqI) (simp_all add: roundEven_def)

text \<open>The literals of the program and the decimal inputs of the session, rounded.\<close>

lemma tolerance_rounds_a_hundredth: "round64 (1 / 100) = Finite tolerance"
  unfolding tolerance_def
  by (subst round64_eqI [where k = "- 7"]) (simp_all add: roundEven_def)

lemma double_0_33_rounds: "round64 (33 / 100) = Finite double_0_33"
  unfolding double_0_33_def
  by (subst round64_eqI [where k = "- 2"]) (simp_all add: roundEven_def)



text \<open>
  \<^verbatim>\<open>0.33 + 0.33 + 0.33\<close> is the double \<^verbatim>\<open>0x1.fae147ae147aep-1\<close>, just below
  \<open>0.99\<close>, and its difference to \<open>1\<close> is above the tolerance.
\<close>

lemma sum_of_three_0_33:
  "sumShares [double_0_33, double_0_33, double_0_33] =
     Finite (4458563631096791 / 4503599627370496)"
proof -
  have "dadd (Finite 0) double_0_33 = Finite double_0_33"
    unfolding dadd.simps double_0_33_def
    by (subst round64_eqI [where k = "- 2"]) (simp_all add: roundEven_def)
  moreover have "dadd (Finite double_0_33) double_0_33 = Finite (5944751508129055 / 9007199254740992)"
    unfolding dadd.simps double_0_33_def
    by (subst round64_eqI [where k = "- 1"]) (simp_all add: roundEven_def)
  moreover have "dadd (Finite (5944751508129055 / 9007199254740992)) double_0_33 =
      Finite (4458563631096791 / 4503599627370496)"
    unfolding dadd.simps double_0_33_def
    by (subst round64_eqI [where k = "- 1"]) (simp_all add: roundEven_def)
  ultimately show ?thesis
    unfolding sumShares_def by (simp only: foldl.simps)
qed

lemma three_0_33_miss_1:
  "dgreater (dabs (dsub (sumShares [double_0_33, double_0_33, double_0_33]) 1)) tolerance"
proof -
  have "dsub (Finite (4458563631096791 / 4503599627370496)) 1 =
      Finite (- (45035996273705 / 4503599627370496))"
    unfolding dsub.simps
    by (subst round64_eqI [where k = "- 7"]) (simp_all add: roundEven_def)
  then show ?thesis
    unfolding sum_of_three_0_33 by (simp add: tolerance_def)
qed



text \<open>
  Further inputs at the edge of the tolerance. The amount \<open>0.01\<close> with the one weight
  \<open>0.02\<close>: the difference is the double \<open>0.01\<close> itself, which is not above it, and the
  split succeeds.
\<close>

lemma exact_0_02_against_0_01:
  "calculateShares tolerance EXACT [1] [2 * tolerance] =
     Inr [\<lparr>userId = 1, share = 2 * tolerance\<rparr>]"
proof -
  have "dadd (Finite 0) (2 * tolerance) = Finite (2 * tolerance)"
    unfolding dadd.simps tolerance_def
    by (subst round64_eqI [where k = "- 6"]) (simp_all add: roundEven_def)
  then have total: "sumShares [2 * tolerance] = Finite (2 * tolerance)"
    unfolding sumShares_def by (simp only: foldl.simps)
  have "dsub (Finite (2 * tolerance)) tolerance = Finite tolerance"
    unfolding dsub.simps tolerance_def
    by (subst round64_eqI [where k = "- 7"]) (simp_all add: roundEven_def)
  then have "\<not> dgreater (dabs (dsub (sumShares [2 * tolerance]) tolerance)) tolerance"
    unfolding total by (simp add: tolerance_def)
  then show ?thesis
    by (simp add: calculateShares_def Let_def)
qed

text \<open>
  The weights \<open>10\<^sup>1\<^sup>6\<close>, \<open>1\<close> and \<open>-10\<^sup>1\<^sup>6\<close> against the amount \<open>1\<close>: the \<open>1\<close> is lost
  in the first sum (a tie, rounded to the even neighbour), the total is \<open>0\<close>, and the
  split fails.
\<close>

lemma absorbed_weight:
  "calculateShares 1 EXACT [1, 2, 3] [10000000000000000, 1, - 10000000000000000] =
     Inl (ShareSumMismatch (Finite 0) 1)"
proof -
  have "dadd (Finite 0) 10000000000000000 = Finite 10000000000000000"
    unfolding dadd.simps
    by (subst round64_eqI [where k = 53]) (simp_all add: roundEven_def)
  moreover have "dadd (Finite 10000000000000000) 1 = Finite 10000000000000000"
    unfolding dadd.simps
    by (subst round64_eqI [where k = 53]) (simp_all add: roundEven_def)
  moreover have "dadd (Finite 10000000000000000) (- 10000000000000000) = Finite 0"
    by (simp add: round64_zero)
  ultimately have total: "sumShares [10000000000000000, 1, - 10000000000000000] = Finite 0"
    unfolding sumShares_def by (simp only: foldl.simps)
  have "dsub (Finite 0) 1 = Finite (- 1)"
    using round64_of_int [of "- 1"] by simp
  then have "dgreater (dabs (dsub (sumShares [10000000000000000, 1, - 10000000000000000]) 1)) tolerance"
    unfolding total by (simp add: tolerance_def)
  then have "calculateShares 1 EXACT [1, 2, 3] [10000000000000000, 1, - 10000000000000000] =
     Inl (ShareSumMismatch (sumShares [10000000000000000, 1, - 10000000000000000]) 1)"
    by (simp add: calculateShares_def Let_def)
  then show ?thesis by (simp only: total)
qed

text \<open>
  The percentages \<open>19.31\<close>, \<open>40.58\<close> and \<open>40.1\<close>, as the doubles they are read as: their
  exact sum misses \<open>100\<close> by more than \<open>0.01\<close>, the sum the program computes does not,
  and the split succeeds.
\<close>

lemma percentages_19_31_40_58_40_1:
  "\<exists>ps. calculateShares 200 PERCENTAGE [1, 2, 3]
       [5435281800282767 / 281474976710656, 2855563638729605 / 70368744177664,
        5643573283048653 / 140737488355328] = Inr ps"
  and "\<bar>sum_list [5435281800282767 / 281474976710656, 2855563638729605 / 70368744177664,
        5643573283048653 / 140737488355328] - (100 :: real)\<bar> > 0.01"
proof -
  let ?ws = "[5435281800282767 / 281474976710656, 2855563638729605 / 70368744177664,
        5643573283048653 / 140737488355328] :: real list"
  have "dadd (Finite 0) (5435281800282767 / 281474976710656) =
      Finite (5435281800282767 / 281474976710656)"
    unfolding dadd.simps
    by (subst round64_eqI [where k = 4]) (simp_all add: roundEven_def)
  moreover have "dadd (Finite (5435281800282767 / 281474976710656)) (2855563638729605 / 70368744177664) =
      Finite (4214384088800297 / 70368744177664)"
    unfolding dadd.simps
    by (subst round64_eqI [where k = 5]) (simp_all add: roundEven_def)
  moreover have "dadd (Finite (4214384088800297 / 70368744177664)) (5643573283048653 / 140737488355328) =
      Finite (439760670645289 / 4398046511104)"
    unfolding dadd.simps
    by (subst round64_eqI [where k = 6]) (simp_all add: roundEven_def)
  ultimately have total: "sumShares ?ws = Finite (439760670645289 / 4398046511104)"
    unfolding sumShares_def by (simp only: foldl.simps)
  have "dsub (Finite (439760670645289 / 4398046511104)) 100 =
      Finite (- (43980465111 / 4398046511104))"
    unfolding dsub.simps
    by (subst round64_eqI [where k = "- 7"]) (simp_all add: roundEven_def)
  then have "\<not> dgreater (dabs (dsub (sumShares ?ws) 100)) tolerance"
    unfolding total by (simp add: tolerance_def)
  then show "\<exists>ps. calculateShares 200 PERCENTAGE [1, 2, 3] ?ws = Inr ps"
    by (simp add: calculateShares_def Let_def)
  show "\<bar>sum_list ?ws - (100 :: real)\<bar> > 0.01"
    by simp
qed

section \<open>The scans, as sets\<close>

lemma userExists_iff: "userExists us i \<longleftrightarrow> (\<exists>u\<in>set us. u_id u = i)"
  by (induction us) auto

lemma firstUnknown_None_iff:
  "firstUnknown us is = None \<longleftrightarrow> (\<forall>i\<in>set is. \<exists>u\<in>set us. u_id u = i)"
  by (induction "is") (auto simp: userExists_iff)

lemma allDigits_iff: "allDigits cs \<longleftrightarrow> (\<forall>c\<in>set cs. c \<in> set ''0123456789'')"
  by (induction cs) (auto simp: isdigit_def)

lemma isValidPhone_iff:
  "isValidPhone ph \<longleftrightarrow> 10 \<le> length ph \<and> (\<forall>c\<in>set ph. c \<in> set ''0123456789'')"
  unfolding isValidPhone_def allDigits_iff by auto

lemma emailRegistered_iff: "emailRegistered us em \<longleftrightarrow> (\<exists>u\<in>set us. u_email u = em)"
  by (induction us) auto

lemma includeCreator_mem: "creator \<in> set (includeCreator creator pids)"
  by (simp add: includeCreator_def)

lemma includeCreator_nonempty: "includeCreator creator pids \<noteq> []"
  using includeCreator_mem [of creator pids] by auto

section \<open>Facts about the session\<close>

lemma threeUsers_eq:
  "threeUsers =
     \<lparr>users =
        [\<lparr>u_id = 1, u_name = ''Ann'', u_email = ''ann@x.org'', u_phone = ''5550000001'', u_password = ''pa''\<rparr>,
         \<lparr>u_id = 2, u_name = ''Bob'', u_email = ''bob@x.org'', u_phone = ''5550000002'', u_password = ''pb''\<rparr>,
         \<lparr>u_id = 3, u_name = ''Cy'', u_email = ''cy@x.org'', u_phone = ''5550000003'', u_password = ''pc''\<rparr>],
      expenses = [], currentUser = None, nextUserId = 4, nextExpenseId = 1\<rparr>"
  by (simp add: threeUsers_def registerUser_def newManager_def isValidEmail_def isValidPhone_def
      isdigit_def)

lemma annLoggedIn_eq:
  "annLoggedIn =
     \<lparr>users =
        [\<lparr>u_id = 1, u_name = ''Ann'', u_email = ''ann@x.org'', u_phone = ''5550000001'', u_password = ''pa''\<rparr>,
         \<lparr>u_id = 2, u_name = ''Bob'', u_email = ''bob@x.org'', u_phone = ''5550000002'', u_password = ''pb''\<rparr>,
         \<lparr>u_id = 3, u_name = ''Cy'', u_email = ''cy@x.org'', u_phone = ''5550000003'', u_password = ''pc''\<rparr>],
      expenses = [],
      currentUser =
        Some \<lparr>u_id = 1, u_name = ''Ann'', u_email = ''ann@x.org'', u_phone = ''5550000001'', u_password = ''pa''\<rparr>,
      nextUserId = 4, nextExpenseId = 1\<rparr>"
  by (simp add: annLoggedIn_def threeUsers_eq login_def)

lemma annLoggedIn_currentUser: "currentUser annLoggedIn = Some (hd (users annLoggedIn))"
  by (simp add: annLoggedIn_eq)

lemma dinnerLedger_eq:
  "dinnerLedger =
     [\<lparr>e_id = 1, description = ''dinner'', amount = 90, splitMethod = EQUAL, createdBy = 1,
       createdAt = ''2024-01-01 12:00:00'',
       participants =
         [\<lparr>userId = 1, share = 30\<rparr>, \<lparr>userId = 2, share = 30\<rparr>, \<lparr>userId = 3, share = 30\<rparr>]\<rparr>]"
  by (simp add: dinnerLedger_def afterDinner_def annLoggedIn_eq addExpense_def includeCreator_def
      calculateShares_def)

lemma afterDinner_eq:
  "afterDinner = annLoggedIn\<lparr>expenses := dinnerLedger, nextExpenseId := 2\<rparr>"
  by (simp add: dinnerLedger_eq afterDinner_def annLoggedIn_eq addExpense_def includeCreator_def
      calculateShares_def)

section \<open>The split\<close>

lemma calculateShares_EQUAL:
  "pids \<noteq> [] \<Longrightarrow>
   calculateShares amt EQUAL pids ws =
     Inr (map (\<lambda>uid. \<lparr>userId = uid, share = amt / real (length pids)\<rparr>) pids)"
  by (simp add: calculateShares_def)

lemma calculateShares_EXACT:
  "calculateShares amt EXACT pids ws =
     (if length ws \<noteq> length pids then Inl ShareCountMismatch
      else if dgreater (dabs (dsub (foldl dadd (Finite 0) ws) amt)) tolerance
        then Inl (ShareSumMismatch (foldl dadd (Finite 0) ws) amt)
      else Inr (map2 (\<lambda>uid w. \<lparr>userId = uid, share = w\<rparr>) pids ws))"
  by (simp add: calculateShares_def sumShares_def)


lemma calculateShares_ids:
  "calculateShares amt method pids ws = Inr ps \<Longrightarrow> map userId ps = pids"
  by (auto simp: calculateShares_def Let_def map_snd_zip map_fst_zip
           split: SplitMethod.splits if_splits intro: nth_equalityI)

section \<open>addExpense\<close>

text \<open>What a call does once the login, amount and participant checks have passed.\<close>

lemma addExpense_reached:
  assumes "currentUser m = Some cu" and "0 < amt"
    and "firstUnknown (users m) (includeCreator (u_id cu) participantIds) = None"
  shows "addExpense m now desc amt method participantIds ws =
     (case calculateShares amt method (includeCreator (u_id cu) participantIds) ws of
        Inl err \<Rightarrow> (Inl err, m\<lparr>nextExpenseId := nextExpenseId m + 1\<rparr>)
      | Inr ps \<Rightarrow>
          (Inr (), m\<lparr>nextExpenseId := nextExpenseId m + 1,
                     expenses := expenses m @
                       [\<lparr>e_id = nextExpenseId m, description = desc, amount = amt,
                         splitMethod = method, createdBy = u_id cu, createdAt = now,
                         participants = ps\<rparr>]\<rparr>))"
  using assms by (simp add: addExpense_def Let_def split: sum.splits)

text \<open>What a successful call has done.\<close>

lemma addExpense_success:
  assumes "fst (addExpense m now desc amt method participantIds ws) = Inr ()"
    and "currentUser m = Some cu"
  shows "\<exists>ps. calculateShares amt method (includeCreator (u_id cu) participantIds) ws = Inr ps
     \<and> 0 < amt \<and> firstUnknown (users m) (includeCreator (u_id cu) participantIds) = None
     \<and> snd (addExpense m now desc amt method participantIds ws) =
         m\<lparr>nextExpenseId := nextExpenseId m + 1,
           expenses := expenses m @
             [\<lparr>e_id = nextExpenseId m, description = desc, amount = amt,
               splitMethod = method, createdBy = u_id cu, createdAt = now,
               participants = ps\<rparr>]\<rparr>"
  using assms by (auto simp: addExpense_def Let_def split: sum.splits option.splits if_splits)

section \<open>Claims about the split and the ledger\<close>

text \<open>
  Claim C2. For every expense created with the EQUAL split, with total amount \<open>amt\<close> and
  \<open>N\<close> participant ids after the creator was included: the stored share list has exactly
  \<open>N\<close> entries, one per participant id in the order of the input, and every share, the
  last one too, is \<open>amt / N\<close>.
\<close>

theorem equal_split_shares:
  assumes "fst (addExpense m now desc amt EQUAL participantIds ws) = Inr ()"
    and "currentUser m = Some cu"
  shows "\<exists>e. expenses (snd (addExpense m now desc amt EQUAL participantIds ws)) = expenses m @ [e]
     \<and> length (participants e) = length (includeCreator (u_id cu) participantIds)
     \<and> map userId (participants e) = includeCreator (u_id cu) participantIds
     \<and> (\<forall>p\<in>set (participants e).
          share p = amt / real (length (includeCreator (u_id cu) participantIds)))"
proof -
  let ?pids = "includeCreator (u_id cu) participantIds"
  from addExpense_success [OF assms] obtain ps where
    ps: "calculateShares amt EQUAL ?pids ws = Inr ps"
    and m': "snd (addExpense m now desc amt EQUAL participantIds ws) =
         m\<lparr>nextExpenseId := nextExpenseId m + 1,
           expenses := expenses m @
             [\<lparr>e_id = nextExpenseId m, description = desc, amount = amt,
               splitMethod = EQUAL, createdBy = u_id cu, createdAt = now,
               participants = ps\<rparr>]\<rparr>"
    by blast
  from ps have "ps = map (\<lambda>uid. \<lparr>userId = uid, share = amt / real (length ?pids)\<rparr>) ?pids"
    by (simp add: calculateShares_EQUAL includeCreator_nonempty)
  then have "length ps = length ?pids" and "map userId ps = ?pids"
    and "\<forall>p\<in>set ps. share p = amt / real (length ?pids)"
    by (auto simp: comp_def)
  with m' show ?thesis by simp
qed

theorem equal_split_shares_witness:
  "fst (addExpense annLoggedIn ''2024-01-02 08:00:00'' ''lunch'' 90 EQUAL [2, 3] []) = Inr ()
   \<and> currentUser annLoggedIn = Some (hd (users annLoggedIn))
   \<and> (\<exists>e. expenses (snd (addExpense annLoggedIn ''2024-01-02 08:00:00'' ''lunch'' 90 EQUAL [2, 3] [])) =
            expenses annLoggedIn @ [e]
        \<and> length (participants e) = 3
        \<and> map userId (participants e) = [2, 3, 1]
        \<and> (\<forall>p\<in>set (participants e). share p = 30))"
proof -
  have ok: "fst (addExpense annLoggedIn ''2024-01-02 08:00:00'' ''lunch'' 90 EQUAL [2, 3] []) = Inr ()"
    by (simp add: annLoggedIn_eq addExpense_def includeCreator_def calculateShares_def)
  have "includeCreator (u_id (hd (users annLoggedIn))) [2, 3] = [2, 3, 1]"
    by (simp add: annLoggedIn_eq includeCreator_def)
  with equal_split_shares [OF ok annLoggedIn_currentUser] ok annLoggedIn_currentUser
  show ?thesis by auto
qed

text \<open>
  Claim C3 reads the tolerance test as a comparison of exact numbers; the program makes it
  in binary64, and within a rounding error of the tolerance the two differ. User 1 splits
  the amount \<open>1\<close> among the users 1, 2 and 3 with the weights \<open>0.33\<close>, \<open>0.33\<close> and
  \<open>0.33\<close>. The call passes the login, amount and participant checks, the weights are as
  many as the participants, and their sum differs from the amount by no more than \<open>0.01\<close>
  (by \<open>0.01\<close> as decimals, by a little less as the doubles they are read as), so the
  claim lets the creation succeed. The program adds the weights to the double next below
  \<open>0.99\<close>, finds the difference \<open>0.010000000000000009\<close> above the double \<open>0.01\<close>, and
  fails with \<open>ShareSumMismatch\<close>.
\<close>

theorem exact_split_counterexample:
  "round64 (33 / 100) = Finite double_0_33
   \<and> fst (addExpense annLoggedIn ''2024-01-01 09:00:00'' ''fruit'' 1 EXACT [1, 2, 3]
            [double_0_33, double_0_33, double_0_33]) =
       Inl (ShareSumMismatch (Finite (4458563631096791 / 4503599627370496)) 1)
   \<and> length [double_0_33, double_0_33, double_0_33] = length (includeCreator 1 [1, 2, 3])
   \<and> \<not> \<bar>sum_list [double_0_33, double_0_33, double_0_33] - 1\<bar> > 0.01
   \<and> \<not> \<bar>sum_list [33 / 100, 33 / 100, 33 / 100] - (1 :: real)\<bar> > 0.01"
proof -
  let ?ws = "[double_0_33, double_0_33, double_0_33]"
  have "calculateShares 1 EXACT [1, 2, 3] ?ws = Inl (ShareSumMismatch (sumShares ?ws) 1)"
    by (simp add: calculateShares_def Let_def three_0_33_miss_1)
  then have split: "calculateShares 1 EXACT [1, 2, 3] ?ws =
      Inl (ShareSumMismatch (Finite (4458563631096791 / 4503599627370496)) 1)"
    by (simp only: sum_of_three_0_33)
  have "fst (addExpense annLoggedIn ''2024-01-01 09:00:00'' ''fruit'' 1 EXACT [1, 2, 3] ?ws) =
       Inl (ShareSumMismatch (Finite (4458563631096791 / 4503599627370496)) 1)"
    by (simp add: annLoggedIn_eq addExpense_def includeCreator_def split)
  moreover have "length ?ws = length (includeCreator 1 [1, 2, 3])"
    by (simp add: includeCreator_def)
  moreover have "\<not> \<bar>sum_list ?ws - 1\<bar> > 0.01"
    by (simp add: double_0_33_def)
  moreover have "\<not> \<bar>sum_list [33 / 100, 33 / 100, 33 / 100] - (1 :: real)\<bar> > 0.01"
    by simp
  ultimately show ?thesis
    using double_0_33_rounds by blast
qed

text \<open>
  Claim C3, amended. For every EXACT creation that reaches the split (a user is logged in,
  the amount is positive, every participant id, the creator's included, is the id of a
  user): if the weights are as many as the participants, the creation fails with
  \<open>ShareSumMismatch\<close> if and only if \<open>\<bar>\<Sum>weights - amount\<bar> > 0.01\<close> as the program
  evaluates it in binary64, that is with the weights added from the left starting at \<open>0\<close>,
  each sum and the difference to the amount rounded to the nearest double, and the result
  compared with the double \<open>0.01\<close> denotes; it then reports that sum and the amount.
  Otherwise it succeeds and the share of each participant is the weight at the same
  position, unchanged. If the weights are not as many as the participants, the creation
  fails with \<open>ShareCountMismatch\<close>.
\<close>

theorem exact_split_after_checks:
  assumes "currentUser m = Some cu" and "0 < amt"
    and "\<forall>i\<in>set (includeCreator (u_id cu) participantIds). \<exists>u\<in>set (users m). u_id u = i"
  shows
    "let pids = includeCreator (u_id cu) participantIds;
         r = addExpense m now desc amt EXACT participantIds ws;
         total = foldl dadd (Finite 0) ws;
         mismatch = dgreater (dabs (dsub total amt)) tolerance
     in (length ws = length pids \<longrightarrow>
           ((\<exists>t a. fst r = Inl (ShareSumMismatch t a)) \<longleftrightarrow> mismatch)
         \<and> (mismatch \<longrightarrow> fst r = Inl (ShareSumMismatch total amt))
         \<and> (\<not> mismatch \<longrightarrow>
              fst r = Inr ()
              \<and> (\<exists>e. expenses (snd r) = expenses m @ [e]
                   \<and> participants e = map2 (\<lambda>uid w. \<lparr>userId = uid, share = w\<rparr>) pids ws)))
      \<and> (length ws \<noteq> length pids \<longrightarrow> fst r = Inl ShareCountMismatch)"
proof -
  from assms(3) have "firstUnknown (users m) (includeCreator (u_id cu) participantIds) = None"
    by (simp only: firstUnknown_None_iff)
  from addExpense_reached [OF assms(1,2) this, of now desc EXACT ws] show ?thesis
    by (simp add: calculateShares_EXACT Let_def)
qed

theorem exact_split_after_checks_witness:
  "currentUser annLoggedIn = Some (hd (users annLoggedIn))
   \<and> (0 :: real) < 100
   \<and> firstUnknown (users annLoggedIn) (includeCreator (u_id (hd (users annLoggedIn))) [1, 2]) = None
   \<and> fst (addExpense annLoggedIn ''2024-01-02 08:00:00'' ''taxi'' 100 EXACT [1, 2] [60, 30]) =
       Inl (ShareSumMismatch (Finite 90) 100)
   \<and> fst (addExpense annLoggedIn ''2024-01-02 08:00:00'' ''taxi'' 100 EXACT [1, 2] [60, 40]) = Inr ()
   \<and> fst (addExpense annLoggedIn ''2024-01-02 08:00:00'' ''taxi'' 100 EXACT [1, 2] [60]) =
       Inl ShareCountMismatch"
proof -
  have known: "\<forall>i\<in>set (includeCreator (u_id (hd (users annLoggedIn))) [1, 2]).
        \<exists>u\<in>set (users annLoggedIn). u_id u = i"
    by (simp add: annLoggedIn_eq includeCreator_def)
  have pos: "(0 :: real) < 100" by simp
  have pids: "includeCreator (u_id (hd (users annLoggedIn))) [1, 2] = [1, 2]"
    by (simp add: annLoggedIn_eq includeCreator_def)
  note inst = exact_split_after_checks [OF annLoggedIn_currentUser pos known,
      of "''2024-01-02 08:00:00''" "''taxi''"]
  from known
  have checked: "firstUnknown (users annLoggedIn) (includeCreator (u_id (hd (users annLoggedIn))) [1, 2]) = None"
    by (simp only: firstUnknown_None_iff)
  from inst [of "[60, 30]"] inst [of "[60, 40]"] inst [of "[60]"] annLoggedIn_currentUser checked
  show ?thesis
    by (simp add: pids Let_def round64_numeral round64_neg_numeral round64_zero tolerance_def)
qed




text \<open>
  Claim C6. For every call of \<^verbatim>\<open>addExpense\<close> that fails, whatever the error (not logged
  in, invalid amount, unknown participant, share count, share sum or percentage sum), the
  sequence of expenses after the call is the sequence before it: nothing is appended and no
  stored expense is changed. (The statement is about the expenses only; the counter
  \<^verbatim>\<open>nextExpenseId\<close> is the subject of claim C7.)
\<close>

theorem failed_addExpense_keeps_ledger:
  assumes "fst (addExpense m now desc amt method participantIds ws) = Inl err"
  shows "expenses (snd (addExpense m now desc amt method participantIds ws)) = expenses m"
proof (cases "currentUser m")
  case None
  then show ?thesis by (simp add: addExpense_def)
next
  case (Some cu)
  show ?thesis
  proof (cases "0 < amt \<and> firstUnknown (users m) (includeCreator (u_id cu) participantIds) = None")
    case False
    with Some show ?thesis
      by (auto simp: addExpense_def Let_def split: option.splits)
  next
    case True
    then have "addExpense m now desc amt method participantIds ws =
     (case calculateShares amt method (includeCreator (u_id cu) participantIds) ws of
        Inl err \<Rightarrow> (Inl err, m\<lparr>nextExpenseId := nextExpenseId m + 1\<rparr>)
      | Inr ps \<Rightarrow>
          (Inr (), m\<lparr>nextExpenseId := nextExpenseId m + 1,
                     expenses := expenses m @
                       [\<lparr>e_id = nextExpenseId m, description = desc, amount = amt,
                         splitMethod = method, createdBy = u_id cu, createdAt = now,
                         participants = ps\<rparr>]\<rparr>))"
      using Some by (simp add: addExpense_reached)
    with assms show ?thesis
      by (cases "calculateShares amt method (includeCreator (u_id cu) participantIds) ws") simp_all
  qed
qed

theorem failed_addExpense_keeps_ledger_witness:
  "fst (addExpense afterDinner ''2024-01-02 08:00:00'' ''taxi'' 100 EXACT [1, 2] [60, 30]) =
     Inl (ShareSumMismatch (Finite 90) 100)
   \<and> expenses (snd (addExpense afterDinner ''2024-01-02 08:00:00'' ''taxi'' 100 EXACT [1, 2] [60, 30])) =
       dinnerLedger
   \<and> length dinnerLedger = 1"
proof -
  have failed: "fst (addExpense afterDinner ''2024-01-02 08:00:00'' ''taxi'' 100 EXACT [1, 2] [60, 30]) =
     Inl (ShareSumMismatch (Finite 90) 100)"
    by (simp add: afterDinner_eq annLoggedIn_eq addExpense_def includeCreator_def
        calculateShares_def sumShares_def round64_numeral round64_neg_numeral tolerance_def)
  from failed_addExpense_keeps_ledger [OF failed] failed show ?thesis
    by (simp add: afterDinner_eq dinnerLedger_eq)
qed

text \<open>
  Claim C7 says that the k-th successful creation is given the identity k, whatever failed
  in between. The program does otherwise: \<^verbatim>\<open>nextExpenseId++\<close> is evaluated when the
  expense object is constructed, before the checks of the split, and a creation that fails
  one of them returns with the counter advanced. From a fresh manager with three users and
  user 1 logged in, an EXACT creation with participants \<open>[2]\<close> and weights \<open>[100]\<close> fails
  with \<open>ShareCountMismatch\<close> (the creator was added to the participants) and stores
  nothing; the creation that follows succeeds, is the first in the ledger, and has the
  identity 2.
\<close>

theorem failed_creation_consumes_identity:
  "fst (addExpense annLoggedIn ''2024-01-01 09:00:00'' ''taxi'' 100 EXACT [2] [100]) =
     Inl ShareCountMismatch
   \<and> expenses afterFailedTaxi = []
   \<and> fst (addExpense afterFailedTaxi ''2024-01-01 12:00:00'' ''dinner'' 90 EQUAL [1, 2, 3] []) = Inr ()
   \<and> map e_id
       (expenses (snd (addExpense afterFailedTaxi ''2024-01-01 12:00:00'' ''dinner'' 90 EQUAL [1, 2, 3] []))) =
       [2]"
  by (simp add: afterFailedTaxi_def annLoggedIn_eq addExpense_def includeCreator_def
      calculateShares_def)

text \<open>
  Claim C8. For every successful call of \<^verbatim>\<open>addExpense\<close> the creator's id is among the
  ids of the stored participant shares: the ids of the shares are, in order, the ids of the
  input followed by the creator's id when the creator was absent from the input, and the
  ids of the input as given, duplicates kept, one share each, when the creator was present.
\<close>

theorem creator_among_participants:
  assumes "fst (addExpense m now desc amt method participantIds ws) = Inr ()"
    and "currentUser m = Some cu"
  shows "\<exists>e. expenses (snd (addExpense m now desc amt method participantIds ws)) = expenses m @ [e]
     \<and> createdBy e = u_id cu
     \<and> u_id cu \<in> set (map userId (participants e))
     \<and> map userId (participants e) =
         (if u_id cu \<in> set participantIds then participantIds else participantIds @ [u_id cu])"
proof -
  let ?pids = "includeCreator (u_id cu) participantIds"
  from addExpense_success [OF assms] obtain ps where
    ps: "calculateShares amt method ?pids ws = Inr ps"
    and m': "snd (addExpense m now desc amt method participantIds ws) =
         m\<lparr>nextExpenseId := nextExpenseId m + 1,
           expenses := expenses m @
             [\<lparr>e_id = nextExpenseId m, description = desc, amount = amt,
               splitMethod = method, createdBy = u_id cu, createdAt = now,
               participants = ps\<rparr>]\<rparr>"
    by blast
  let ?e = "\<lparr>e_id = nextExpenseId m, description = desc, amount = amt,
               splitMethod = method, createdBy = u_id cu, createdAt = now,
               participants = ps\<rparr>"
  from ps have ids: "map userId ps = ?pids" by (rule calculateShares_ids)
  have "expenses (snd (addExpense m now desc amt method participantIds ws)) = expenses m @ [?e]"
    using m' by simp
  moreover have "createdBy ?e = u_id cu" by simp
  moreover have "u_id cu \<in> set (map userId (participants ?e))"
    using includeCreator_mem [of "u_id cu" participantIds] ids by simp
  moreover have "map userId (participants ?e) =
      (if u_id cu \<in> set participantIds then participantIds else participantIds @ [u_id cu])"
    using ids by (simp add: includeCreator_def)
  ultimately show ?thesis by blast
qed

theorem creator_among_participants_witness:
  "fst (addExpense annLoggedIn ''2024-01-02 08:00:00'' ''gift'' 100 EXACT [2, 2] [10, 20, 70]) = Inr ()
   \<and> currentUser annLoggedIn = Some (hd (users annLoggedIn))
   \<and> (\<exists>e. expenses (snd (addExpense annLoggedIn ''2024-01-02 08:00:00'' ''gift'' 100 EXACT [2, 2] [10, 20, 70])) =
            expenses annLoggedIn @ [e]
        \<and> createdBy e = 1
        \<and> map userId (participants e) = [2, 2, 1])"
proof -
  have ok: "fst (addExpense annLoggedIn ''2024-01-02 08:00:00'' ''gift'' 100 EXACT [2, 2] [10, 20, 70]) = Inr ()"
    by (simp add: annLoggedIn_eq addExpense_def includeCreator_def calculateShares_def
        sumShares_def round64_numeral round64_zero tolerance_def)
  have "u_id (hd (users annLoggedIn)) = 1"
    by (simp add: annLoggedIn_eq)
  with creator_among_participants [OF ok annLoggedIn_currentUser] ok annLoggedIn_currentUser
  show ?thesis by auto
qed

text \<open>
  Claim C10. No call of \<^verbatim>\<open>addExpense\<close> divides by a participant count of zero: the
  participant list the split is computed from has the creator in it, so it is not empty,
  also when the caller's list is empty (the list is then the creator alone). The split by
  itself, on an empty list, would divide by zero. A logged-in user who is registered and
  passes an empty list with a positive amount gets an expense with one share, the whole
  amount, for the creator.
\<close>

theorem equal_split_never_divides_by_zero:
  "fst (addExpense m now desc amt method participantIds ws) \<noteq> Inl DivisionByZero
   \<and> includeCreator creator participantIds \<noteq> []
   \<and> includeCreator creator [] = [creator]
   \<and> calculateShares amt EQUAL [] ws = Inl DivisionByZero
   \<and> (currentUser m = Some cu \<and> 0 < amt \<and> userExists (users m) (u_id cu) \<longrightarrow>
        addExpense m now desc amt EQUAL [] ws =
          (Inr (), m\<lparr>nextExpenseId := nextExpenseId m + 1,
                     expenses := expenses m @
                       [\<lparr>e_id = nextExpenseId m, description = desc, amount = amt,
                         splitMethod = EQUAL, createdBy = u_id cu, createdAt = now,
                         participants = [\<lparr>userId = u_id cu, share = amt\<rparr>]\<rparr>]\<rparr>))"
proof -
  have "calculateShares amt method (includeCreator c participantIds) ws \<noteq> Inl DivisionByZero" for c
    using includeCreator_nonempty [of c participantIds]
    by (simp add: calculateShares_def Let_def split: SplitMethod.splits)
  then have "fst (addExpense m now desc amt method participantIds ws) \<noteq> Inl DivisionByZero"
    by (auto simp: addExpense_def Let_def split: option.splits sum.splits)
  moreover have "includeCreator creator [] = [creator]"
    by (simp add: includeCreator_def)
  moreover have "calculateShares amt EQUAL [] ws = Inl DivisionByZero"
    by (simp add: calculateShares_def)
  moreover have "currentUser m = Some cu \<and> 0 < amt \<and> userExists (users m) (u_id cu) \<longrightarrow>
        addExpense m now desc amt EQUAL [] ws =
          (Inr (), m\<lparr>nextExpenseId := nextExpenseId m + 1,
                     expenses := expenses m @
                       [\<lparr>e_id = nextExpenseId m, description = desc, amount = amt,
                         splitMethod = EQUAL, createdBy = u_id cu, createdAt = now,
                         participants = [\<lparr>userId = u_id cu, share = amt\<rparr>]\<rparr>]\<rparr>)"
    by (simp add: addExpense_def includeCreator_def calculateShares_def)
  ultimately show ?thesis
    using includeCreator_nonempty [of creator participantIds] by blast
qed

theorem equal_split_never_divides_by_zero_witness:
  "currentUser annLoggedIn = Some (hd (users annLoggedIn))
   \<and> (0 :: real) < 50
   \<and> userExists (users annLoggedIn) (u_id (hd (users annLoggedIn)))
   \<and> fst (addExpense annLoggedIn ''2024-01-02 08:00:00'' ''coffee'' 50 EQUAL [] []) = Inr ()
   \<and> map participants (expenses (snd (addExpense annLoggedIn ''2024-01-02 08:00:00'' ''coffee'' 50 EQUAL [] []))) =
       [[\<lparr>userId = 1, share = 50\<rparr>]]"
proof -
  have ex: "userExists (users annLoggedIn) (u_id (hd (users annLoggedIn)))"
    by (simp add: annLoggedIn_eq)
  have pos: "(0 :: real) < 50" by simp
  have "u_id (hd (users annLoggedIn)) = 1" "expenses annLoggedIn = []"
    by (simp_all add: annLoggedIn_eq)
  with equal_split_never_divides_by_zero
    [of annLoggedIn "''2024-01-02 08:00:00''" "''coffee''" 50 EQUAL "[]" "[]" 1
       "hd (users annLoggedIn)"]
    annLoggedIn_currentUser ex pos
  show ?thesis by simp
qed

section \<open>Claims about registration\<close>

text \<open>
  Claim C9 does not hold of every call of \<^verbatim>\<open>registerUser\<close>: the three checks are made
  in order and the first that fails decides the error. A phone of five digits together with
  an email without \<open>@\<close> fails with \<open>InvalidEmail\<close>, not with \<open>InvalidPhone\<close>; the email of
  a registered user together with a phone of five digits fails with \<open>InvalidPhone\<close>, not
  with \<open>DuplicateEmail\<close>.
\<close>

theorem register_counterexample:
  "fst (registerUser newManager ''Dan'' ''dan'' ''12345'' ''pd'') = Inl InvalidEmail
   \<and> length ''12345'' < 10
   \<and> fst (registerUser threeUsers ''Ann'' ''ann@x.org'' ''12345'' ''pa'') = Inl InvalidPhone
   \<and> u_email (hd (users threeUsers)) = ''ann@x.org''"
  by (simp add: threeUsers_eq registerUser_def newManager_def isValidEmail_def isValidPhone_def)

text \<open>
  Claim C9, amended. For every call of \<^verbatim>\<open>registerUser\<close>: it fails with \<open>InvalidEmail\<close>
  exactly when the email does not contain both an \<open>@\<close> and a \<open>.\<close>; it fails with
  \<open>InvalidPhone\<close> exactly when the email passes that check and the phone is shorter than 10
  characters or contains a character that is not a digit; it fails with \<open>DuplicateEmail\<close>
  exactly when email and phone pass their checks and some registered user has the same
  email, compared as strings; it succeeds in the remaining case, and the new user then has
  the identity \<^verbatim>\<open>nextUserId\<close>, which is advanced by one. A call that fails leaves the
  manager as it was.
\<close>

theorem register_outcome:
  "let r = registerUser m nm em ph pw;
       emailOk = (CHR ''@'' \<in> set em \<and> CHR ''.'' \<in> set em);
       phoneOk = (10 \<le> length ph \<and> (\<forall>c\<in>set ph. c \<in> set ''0123456789''));
       taken = (\<exists>u\<in>set (users m). u_email u = em)
   in (fst r = Inl InvalidEmail \<longleftrightarrow> \<not> emailOk)
    \<and> (fst r = Inl InvalidPhone \<longleftrightarrow> emailOk \<and> \<not> phoneOk)
    \<and> (fst r = Inl DuplicateEmail \<longleftrightarrow> emailOk \<and> phoneOk \<and> taken)
    \<and> (fst r = Inr () \<longleftrightarrow> emailOk \<and> phoneOk \<and> \<not> taken)
    \<and> (fst r = Inr () \<longrightarrow>
         snd r = m\<lparr>users := users m @
                      [\<lparr>u_id = nextUserId m, u_name = nm, u_email = em, u_phone = ph,
                        u_password = pw\<rparr>],
                    nextUserId := nextUserId m + 1\<rparr>)
    \<and> (fst r \<noteq> Inr () \<longrightarrow> snd r = m)"
proof -
  define emailOk where "emailOk \<longleftrightarrow> CHR ''@'' \<in> set em \<and> CHR ''.'' \<in> set em"
  define phoneOk where "phoneOk \<longleftrightarrow> 10 \<le> length ph \<and> (\<forall>c\<in>set ph. c \<in> set ''0123456789'')"
  define taken where "taken \<longleftrightarrow> (\<exists>u\<in>set (users m). u_email u = em)"
  have checks: "isValidEmail em = emailOk" "isValidPhone ph = phoneOk"
    "emailRegistered (users m) em = taken"
    by (simp_all only: isValidEmail_def isValidPhone_iff emailRegistered_iff
        emailOk_def phoneOk_def taken_def)
  show ?thesis
    unfolding Let_def emailOk_def [symmetric] phoneOk_def [symmetric] taken_def [symmetric]
      registerUser_def checks
    by simp
qed

theorem register_outcome_witness:
  "fst (registerUser newManager ''A'' ''a@b.com'' ''5550000001'' ''pw'') = Inr ()
   \<and> map u_id (users (snd (registerUser newManager ''A'' ''a@b.com'' ''5550000001'' ''pw''))) = [1]
   \<and> fst (registerUser (snd (registerUser newManager ''A'' ''a@b.com'' ''5550000001'' ''pw''))
       ''A'' ''a@b.com'' ''5550000001'' ''pw'') = Inl DuplicateEmail"
proof -
  let ?m = "snd (registerUser newManager ''A'' ''a@b.com'' ''5550000001'' ''pw'')"
  have first: "\<not> (\<exists>u\<in>set (users newManager). u_email u = ''a@b.com'')"
    by (simp add: newManager_def)
  from register_outcome [of newManager "''A''" "''a@b.com''" "''5550000001''" "''pw''"] first
  have one: "fst (registerUser newManager ''A'' ''a@b.com'' ''5550000001'' ''pw'') = Inr ()"
    and m: "?m = newManager\<lparr>users := users newManager @
                      [\<lparr>u_id = nextUserId newManager, u_name = ''A'', u_email = ''a@b.com'',
                        u_phone = ''5550000001'', u_password = ''pw''\<rparr>],
                    nextUserId := nextUserId newManager + 1\<rparr>"
    by (simp_all add: Let_def)
  from m have taken: "\<exists>u\<in>set (users ?m). u_email u = ''a@b.com''"
    by simp
  from register_outcome [of ?m "''A''" "''a@b.com''" "''5550000001''" "''pw''"] taken
  have "fst (registerUser ?m ''A'' ''a@b.com'' ''5550000001'' ''pw'') = Inl DuplicateEmail"
    by (simp add: Let_def)
  with one m show ?thesis by (simp add: newManager_def)
qed

section \<open>Claims about the balance\<close>

lemma entry_balanceStep:
  "entry (balanceStep me payer b p) c = entry b c + contribution me payer p c"
  by (simp add: balanceStep_def plusAssign_def minusAssign_def entry_def contribution_def)

lemma dom_balanceStep:
  "c \<in> dom (balanceStep me payer b p) \<longleftrightarrow> c \<in> dom b \<or> involves me payer p c"
  by (auto simp: balanceStep_def plusAssign_def minusAssign_def involves_def)

lemma entry_foldl_balanceStep:
  "entry (foldl (balanceStep me payer) b ps) c = entry b c + (\<Sum>p\<leftarrow>ps. contribution me payer p c)"
  by (induction ps arbitrary: b) (simp_all add: entry_balanceStep)

lemma dom_foldl_balanceStep:
  "c \<in> dom (foldl (balanceStep me payer) b ps) \<longleftrightarrow> c \<in> dom b \<or> (\<exists>p\<in>set ps. involves me payer p c)"
  by (induction ps arbitrary: b) (auto simp: dom_balanceStep)

lemma entry_foldl_balanceExpense:
  "entry (foldl (balanceExpense me) b ledger) c =
     entry b c + (\<Sum>e\<leftarrow>ledger. \<Sum>p\<leftarrow>participants e. contribution me (createdBy e) p c)"
  by (induction ledger arbitrary: b) (simp_all add: balanceExpense_def entry_foldl_balanceStep)

lemma dom_foldl_balanceExpense:
  "c \<in> dom (foldl (balanceExpense me) b ledger) \<longleftrightarrow>
     c \<in> dom b \<or> (\<exists>e\<in>set ledger. \<exists>p\<in>set (participants e). involves me (createdBy e) p c)"
  by (induction ledger arbitrary: b) (auto simp: balanceExpense_def dom_foldl_balanceStep)

lemma entry_computeBalance:
  "entry (computeBalance ledger me) c =
     (\<Sum>e\<leftarrow>ledger. \<Sum>p\<leftarrow>participants e. contribution me (createdBy e) p c)"
proof -
  have "entry Map.empty c = 0" by (simp add: entry_def)
  then show ?thesis
    unfolding computeBalance_def entry_foldl_balanceExpense by simp
qed

lemma dom_computeBalance:
  "c \<in> dom (computeBalance ledger me) \<longleftrightarrow>
     (\<exists>e\<in>set ledger. \<exists>p\<in>set (participants e). involves me (createdBy e) p c)"
  by (simp add: computeBalance_def dom_foldl_balanceExpense)

lemma lookup_computeBalance:
  "computeBalance ledger me c =
     (if \<exists>e\<in>set ledger. \<exists>p\<in>set (participants e). involves me (createdBy e) p c
      then Some (\<Sum>e\<leftarrow>ledger. \<Sum>p\<leftarrow>participants e. contribution me (createdBy e) p c)
      else None)"
proof (cases "c \<in> dom (computeBalance ledger me)")
  case True
  then obtain v where v: "computeBalance ledger me c = Some v" by auto
  then have "entry (computeBalance ledger me) c = v" by (simp add: entry_def)
  with v True show ?thesis by (simp add: entry_computeBalance dom_computeBalance)
next
  case False
  then have "computeBalance ledger me c = None" by (simp add: domIff)
  moreover from False
  have "\<not> (\<exists>e\<in>set ledger. \<exists>p\<in>set (participants e). involves me (createdBy e) p c)"
    unfolding dom_computeBalance .
  ultimately show ?thesis by simp
qed

lemma computeBalance_snoc:
  "computeBalance (ledger @ [e]) me =
     foldl (balanceStep me (createdBy e)) (computeBalance ledger me) (participants e)"
  by (simp add: computeBalance_def balanceExpense_def)

lemma dinner_balance_of_2: "computeBalance dinnerLedger 2 = [1 \<mapsto> - 30]"
  by (simp add: dinnerLedger_eq computeBalance_def balanceExpense_def balanceStep_def
      plusAssign_def minusAssign_def entry_def)

lemma dinner_balance_of_1: "computeBalance dinnerLedger 1 = [2 \<mapsto> 30, 3 \<mapsto> 30]"
  by (simp add: dinnerLedger_eq computeBalance_def balanceExpense_def balanceStep_def
      plusAssign_def minusAssign_def entry_def)

lemma dinner_display_ann: "displayBalance afterDinner = Inr [2 \<mapsto> 30, 3 \<mapsto> 30]"
proof -
  have "currentUser afterDinner = Some (hd (users annLoggedIn))"
    and "u_id (hd (users annLoggedIn)) = 1" and "expenses afterDinner = dinnerLedger"
    by (simp_all add: afterDinner_eq annLoggedIn_eq)
  then show ?thesis by (simp add: displayBalance_def dinner_balance_of_1)
qed

lemma dinner_display_bob:
  "displayBalance (snd (login afterDinner ''bob@x.org'' ''pb'')) = Inr [1 \<mapsto> - 30]"
proof -
  have "snd (login afterDinner ''bob@x.org'' ''pb'') =
      afterDinner\<lparr>currentUser := Some (users annLoggedIn ! 1)\<rparr>"
    and "u_id (users annLoggedIn ! 1) = 2" and "expenses afterDinner = dinnerLedger"
    by (simp_all add: afterDinner_eq annLoggedIn_eq login_def)
  then show ?thesis by (simp add: displayBalance_def dinner_balance_of_2)
qed

text \<open>
  Claim C1. For every ledger and focal user the balance map is built by a scan: it is empty
  for the empty ledger, and a further expense is folded into the map of the ledger before
  it, one participant share at a time, by \<open>balanceStep\<close> with the expense's creator as the
  payer. A share adds the share to the participant's entry when the focal user paid and is
  not that participant, subtracts it from the payer's entry when the focal user is the
  participant and did not pay, and changes nothing otherwise; the contributions of all
  shares of all expenses add up, so the entry of a counterparty is the sum of its
  contributions, and a counterparty no share touches has no entry. For the ledger of the
  scenario (user 1 pays 90, split equally among 1, 2 and 3) the balance of user 2 is
  \<open>{1: -30}\<close> and the balance of user 1 is \<open>{2: 30, 3: 30}\<close>; these are the maps
  \<^verbatim>\<open>displayBalance\<close> computes when user 2, and user 1, is logged in.
\<close>

theorem computeBalance_scan:
  "computeBalance [] me = Map.empty
   \<and> computeBalance (ledger @ [e]) me =
       foldl (balanceStep me (createdBy e)) (computeBalance ledger me) (participants e)
   \<and> balanceStep me payer b p =
       (if payer = me \<and> userId p \<noteq> me then b(userId p \<mapsto> entry b (userId p) + share p)
        else if userId p = me \<and> payer \<noteq> me then b(payer \<mapsto> entry b payer - share p)
        else b)
   \<and> computeBalance ledger me c =
       (if \<exists>e\<in>set ledger. \<exists>p\<in>set (participants e). involves me (createdBy e) p c
        then Some (\<Sum>e\<leftarrow>ledger. \<Sum>p\<leftarrow>participants e. contribution me (createdBy e) p c)
        else None)
   \<and> computeBalance dinnerLedger 2 = [1 \<mapsto> - 30]
   \<and> computeBalance dinnerLedger 1 = [2 \<mapsto> 30, 3 \<mapsto> 30]
   \<and> displayBalance (snd (login afterDinner ''bob@x.org'' ''pb'')) = Inr [1 \<mapsto> - 30]
   \<and> displayBalance afterDinner = Inr [2 \<mapsto> 30, 3 \<mapsto> 30]"
proof -
  have "computeBalance [] me = Map.empty"
    by (simp add: computeBalance_def)
  moreover have "balanceStep me payer b p =
       (if payer = me \<and> userId p \<noteq> me then b(userId p \<mapsto> entry b (userId p) + share p)
        else if userId p = me \<and> payer \<noteq> me then b(payer \<mapsto> entry b payer - share p)
        else b)"
    by (simp add: balanceStep_def plusAssign_def minusAssign_def)
  ultimately show ?thesis
    using computeBalance_snoc [of ledger e me] lookup_computeBalance [of ledger me c]
      dinner_balance_of_2 dinner_balance_of_1 dinner_display_bob dinner_display_ann
    by blast
qed

theorem computeBalance_scan_witness:
  "(\<exists>e\<in>set dinnerLedger. \<exists>p\<in>set (participants e). involves 2 (createdBy e) p 1)
   \<and> computeBalance dinnerLedger 2 1 = Some (- 30)
   \<and> computeBalance dinnerLedger 2 3 = None"
proof -
  have "\<exists>e\<in>set dinnerLedger. \<exists>p\<in>set (participants e). involves 2 (createdBy e) p 1"
    by (simp add: dinnerLedger_eq involves_def)
  moreover have "(\<Sum>e\<leftarrow>dinnerLedger. \<Sum>p\<leftarrow>participants e. contribution 2 (createdBy e) p 1) = - 30"
    by (simp add: dinnerLedger_eq contribution_def)
  moreover have "\<not> (\<exists>e\<in>set dinnerLedger. \<exists>p\<in>set (participants e). involves 2 (createdBy e) p 3)"
    by (simp add: dinnerLedger_eq involves_def)
  ultimately show ?thesis
    using computeBalance_scan [of 2 dinnerLedger undefined undefined Map.empty
        "\<lparr>userId = 0, share = 0\<rparr>" 1]
      computeBalance_scan [of 2 dinnerLedger undefined undefined Map.empty
        "\<lparr>userId = 0, share = 0\<rparr>" 3]
    by simp
qed

text \<open>
  Claim C5. For every ledger and every two distinct users \<open>x\<close> and \<open>y\<close>, the entry for \<open>y\<close>
  in the balance of \<open>x\<close> is the negation of the entry for \<open>x\<close> in the balance of \<open>y\<close>, an
  absent entry counting as zero.
\<close>

theorem balance_symmetry:
  "x \<noteq> y \<Longrightarrow> entry (computeBalance ledger x) y = - entry (computeBalance ledger y) x"
proof -
  assume xy: "x \<noteq> y"
  have mirror: "contribution x payer p y = - contribution y payer p x" for payer p
    using xy by (simp add: contribution_def)
  have inner: "(\<Sum>p\<leftarrow>ps. contribution x payer p y) = - (\<Sum>p\<leftarrow>ps. contribution y payer p x)"
    for ps payer
    by (induction ps) (simp_all add: mirror)
  have "(\<Sum>e\<leftarrow>ledger. \<Sum>p\<leftarrow>participants e. contribution x (createdBy e) p y) =
        - (\<Sum>e\<leftarrow>ledger. \<Sum>p\<leftarrow>participants e. contribution y (createdBy e) p x)"
    by (induction ledger) (simp_all add: inner)
  then show ?thesis by (simp add: entry_computeBalance)
qed

theorem balance_symmetry_witness:
  "(1::int) \<noteq> 2 \<and> entry (computeBalance dinnerLedger 1) 2 = 30
   \<and> entry (computeBalance dinnerLedger 2) 1 = - 30"
proof -
  have ne: "(1::int) \<noteq> 2" by simp
  have "entry (computeBalance dinnerLedger 2) 1 = - 30"
    by (simp add: dinner_balance_of_2 entry_def)
  with ne balance_symmetry [OF ne, of dinnerLedger] show ?thesis by simp
qed

end
